theory Spec2Isabelle
  imports Complex_Main
begin

section \<open>The playback controller of MeditationPlayer.tsx\<close>

text \<open>
  The component keeps React state (\<open>isPlaying\<close>, \<open>progress\<close>, \<open>volume\<close>), refs
  (\<open>audioSourceRef\<close>, \<open>startTimeRef\<close>, \<open>pauseTimeRef\<close>, \<open>animationFrameRef\<close>,
  \<open>gainNodeRef\<close>) and talks to two pieces of the platform: the audio context (a clock and
  the nodes created on it) and the animation-frame scheduler. All of it is one record that
  every handler takes and returns.

  Numbers are JavaScript numbers, IEEE binary64, in the source. The handlers of this
  section compute over exact reals. The two handlers that compute, \<open>playAudio\<close> and
  \<open>updateProgress\<close>, are given a second time further down with every operation rounded
  to binary64, and what depends on the rounding is settled on those.
  \<open>progress\<close> is a percentage (0 to 100) as in the source; the progress fraction of
  the specification is \<open>progress / 100\<close>.

  The prop \<open>session.audioBuffer\<close> is an argument \<open>buf\<close> of the handlers that read it:
  \<open>None\<close> for a missing buffer, \<open>Some duration\<close> otherwise (only the duration of the
  buffer is read).
\<close>

subsection \<open>The platform: buffer source nodes and animation frames\<close>

datatype error = InvalidStateError | RangeError

text \<open>
  A buffer source node of the audio context. \<open>source.start(0, offset)\<close> records the offset
  and the context time of the call; \<open>source.stop()\<close> marks the node stopped.
\<close>

record source_node =
  started :: bool
  startOffset :: real
  startedAt :: real
  stopped :: bool

record player =
  isPlaying :: bool
  progress :: real
  volume :: real
  audioSourceRef :: "nat option"
  startTimeRef :: real
  pauseTimeRef :: real
  animationFrameRef :: nat
  gainNodeRef :: "nat option"
  currentTime :: real
  suspended :: bool
  sources :: "source_node list"
  gains :: "real list"
  nextFrame :: nat
  pendingFrames :: "(nat \<times> bool) list"
  mounted :: bool
  faults :: "error list"

text \<open>
  \<open>sources\<close> and \<open>gains\<close> are the nodes created on the audio context so far; a ref holds
  the index of its node. \<open>pendingFrames\<close> are the scheduled animation-frame callbacks: the
  handle and the value of \<open>isPlaying\<close> that the scheduled \<open>updateProgress\<close> closure has
  captured from its render. \<open>faults\<close> collects the exceptions that leave a handler uncaught.
\<close>

definition createBufferSource :: source_node where
  "createBufferSource = \<lparr>started = False, startOffset = 0, startedAt = 0, stopped = False\<rparr>"

text \<open>
  \<open>source.start(0, offset)\<close>: a negative offset is a RangeError, a second start an
  InvalidStateError.
\<close>

definition node_start :: "real \<Rightarrow> real \<Rightarrow> source_node \<Rightarrow> error + source_node" where
  "node_start now offset n =
     (if offset < 0 then Inl RangeError
      else if started n then Inl InvalidStateError
      else Inr (n\<lparr>started := True, startOffset := offset, startedAt := now\<rparr>))"

text \<open>
  \<open>source.stop()\<close>: an InvalidStateError on a node that was never started, and (the
  "already stopped errors" of the comment in \<open>stopAudio\<close>) on a node stopped before.
\<close>

definition node_stop :: "source_node \<Rightarrow> error + source_node" where
  "node_stop n =
     (if \<not> started n \<or> stopped n then Inl InvalidStateError
      else Inr (n\<lparr>stopped := True\<rparr>))"

text \<open>
  A node produces output from its start until it is stopped or has played the rest of the
  buffer, \<open>duration - offset\<close> seconds.
\<close>

definition active :: "real \<Rightarrow> real \<Rightarrow> source_node \<Rightarrow> bool" where
  "active duration now n =
     (started n \<and> \<not> stopped n \<and> now < startedAt n + (duration - startOffset n))"

definition activeNodes :: "real \<Rightarrow> player \<Rightarrow> source_node list" where
  "activeNodes duration s = filter (active duration (currentTime s)) (sources s)"

definition requestAnimationFrame :: "bool \<Rightarrow> player \<Rightarrow> nat \<times> player" where
  "requestAnimationFrame cap s =
     (nextFrame s,
      s\<lparr>pendingFrames := pendingFrames s @ [(nextFrame s, cap)],
        nextFrame := Suc (nextFrame s)\<rparr>)"

definition cancelAnimationFrame :: "nat \<Rightarrow> player \<Rightarrow> player" where
  "cancelAnimationFrame h s =
     s\<lparr>pendingFrames := filter (\<lambda>p. fst p \<noteq> h) (pendingFrames s)\<rparr>"

subsection \<open>The handlers\<close>

text \<open>
  \<open>stopAudio\<close>. The \<open>try\<close>/\<open>catch\<close> around \<open>stop()\<close> keeps the node as it is when
  \<open>stop()\<close> throws. A handle is the index of a node that \<open>playAudio\<close> appended, so
  it is in range; the test \<open>i < length (sources s)\<close> only makes the function total.
\<close>

definition stopAudio :: "player \<Rightarrow> player" where
  "stopAudio s =
     (let s1 = (case audioSourceRef s of
                  None \<Rightarrow> s
                | Some i \<Rightarrow>
                    (let srcs = (if i < length (sources s)
                                 then (case node_stop (sources s ! i) of
                                         Inl e \<Rightarrow> sources s
                                       | Inr n \<Rightarrow> (sources s)[i := n])
                                 else sources s)
                     in s\<lparr>sources := srcs, audioSourceRef := None\<rparr>))
      in if animationFrameRef s1 \<noteq> 0
         then cancelAnimationFrame (animationFrameRef s1) s1
         else s1)"

text \<open>
  \<open>updateProgress\<close> as a scheduled callback: \<open>cap\<close> is the \<open>isPlaying\<close> of the render
  that created the closure. The callback it schedules is itself, with the same capture.
\<close>

definition updateProgress :: "real option \<Rightarrow> bool \<Rightarrow> player \<Rightarrow> player" where
  "updateProgress buf cap s =
     (case buf of
        None \<Rightarrow> s
      | Some duration \<Rightarrow>
          (let elapsedTime = currentTime s - startTimeRef s;
               currentProgress = min ((elapsedTime / duration) * 100) 100;
               s1 = s\<lparr>progress := currentProgress\<rparr>
           in if currentProgress < 100 \<and> cap then
                (case requestAnimationFrame cap s1 of
                   (h, s2) \<Rightarrow> s2\<lparr>animationFrameRef := h\<rparr>)
              else if currentProgress \<ge> 100 then
                s1\<lparr>isPlaying := False, progress := 100\<rparr>
              else s1))"

text \<open>
  \<open>playAudio\<close>. The exception of \<open>source.start\<close> is not caught in the source: the handler
  ends there, with the assignments made so far kept.
\<close>

definition playAudio :: "real option \<Rightarrow> player \<Rightarrow> player" where
  "playAudio buf s =
     (case buf of
        None \<Rightarrow> s
      | Some duration \<Rightarrow>
          (let s1 = (if suspended s then s\<lparr>suspended := False\<rparr> else s);
               source = createBufferSource;
               s2 = s1\<lparr>gains := gains s1 @ [volume s1],
                       gainNodeRef := Some (length (gains s1))\<rparr>;
               offset = (progress s2 / 100) * duration;
               s3 = s2\<lparr>startTimeRef := currentTime s2 - offset\<rparr>
           in case node_start (currentTime s3) offset source of
                Inl e \<Rightarrow> s3\<lparr>sources := sources s3 @ [source], faults := faults s3 @ [e]\<rparr>
              | Inr source' \<Rightarrow>
                  (let s4 = s3\<lparr>sources := sources s3 @ [source'],
                              audioSourceRef := Some (length (sources s3)),
                              isPlaying := True\<rparr>
                   in case requestAnimationFrame (isPlaying s) s4 of
                        (h, s5) \<Rightarrow> s5\<lparr>animationFrameRef := h\<rparr>)))"

definition pauseAudio :: "player \<Rightarrow> player" where
  "pauseAudio s = (stopAudio s)\<lparr>isPlaying := False\<rparr>"

definition togglePlay :: "real option \<Rightarrow> player \<Rightarrow> player" where
  "togglePlay buf s = (if isPlaying s then pauseAudio s else playAudio buf s)"

definition handleVolumeChange :: "real \<Rightarrow> player \<Rightarrow> player" where
  "handleVolumeChange newVol s =
     (let s1 = s\<lparr>volume := newVol\<rparr>
      in case gainNodeRef s1 of
           None \<Rightarrow> s1
         | Some g \<Rightarrow> s1\<lparr>gains := (gains s1)[g := newVol]\<rparr>)"

text \<open>The \<open>onClick\<close> of the restart button.\<close>

definition restart :: "player \<Rightarrow> player" where
  "restart s = (pauseAudio s)\<lparr>progress := 0, startTimeRef := currentTime s\<rparr>"

subsection \<open>Effects and events\<close>

text \<open>
  The effect with dependency \<open>[isPlaying]\<close>: when a handler has changed \<open>isPlaying\<close>, the
  re-render runs the cleanup of the previous effect and then the effect, which schedules the
  \<open>updateProgress\<close> of the new render. \<open>old\<close> is \<open>isPlaying\<close> before the handler.
\<close>

definition playingEffect :: "bool \<Rightarrow> player \<Rightarrow> player" where
  "playingEffect old s =
     (if isPlaying s = old then s
      else
        (let s1 = (if animationFrameRef s \<noteq> 0
                   then cancelAnimationFrame (animationFrameRef s) s else s)
         in if isPlaying s1 then
              (case requestAnimationFrame (isPlaying s1) s1 of
                 (h, s2) \<Rightarrow> s2\<lparr>animationFrameRef := h\<rparr>)
            else s1))"

text \<open>Unmounting runs the cleanups of both effects.\<close>

definition unmount :: "player \<Rightarrow> player" where
  "unmount s =
     (let s1 = stopAudio s;
          s2 = (if animationFrameRef s1 \<noteq> 0
                then cancelAnimationFrame (animationFrameRef s1) s1 else s1)
      in s2\<lparr>mounted := False\<rparr>)"

datatype event =
    TogglePlay
  | Restart
  | VolumeChange real
  | Frame nat
  | Unmount
  | Advance real

text \<open>
  One event, followed by the re-render it causes: the state updates of a handler are applied
  and the effects run before the next event, so every handler reads the state its
  predecessor left. An unmounted component receives no clicks, and React drops its state
  updates. \<open>Frame h\<close> runs the pending callback with handle \<open>h\<close>;
  \<open>Advance dt\<close> is the device clock moving on by \<open>dt\<close>.
\<close>

definition step :: "real option \<Rightarrow> event \<Rightarrow> player \<Rightarrow> player" where
  "step buf e s =
     (case e of
        TogglePlay \<Rightarrow>
          if mounted s then playingEffect (isPlaying s) (togglePlay buf s) else s
      | Restart \<Rightarrow>
          if mounted s then playingEffect (isPlaying s) (restart s) else s
      | VolumeChange newVol \<Rightarrow>
          if mounted s then handleVolumeChange newVol s else s
      | Frame h \<Rightarrow>
          (case map_of (pendingFrames s) h of
             None \<Rightarrow> s
           | Some cap \<Rightarrow>
               (let s1 = updateProgress buf cap (cancelAnimationFrame h s)
                in if mounted s then playingEffect (isPlaying s) s1
                   else s1\<lparr>isPlaying := isPlaying s, progress := progress s\<rparr>))
      | Unmount \<Rightarrow> if mounted s then unmount s else s
      | Advance dt \<Rightarrow> s\<lparr>currentTime := currentTime s + dt\<rparr>)"

fun run :: "real option \<Rightarrow> event list \<Rightarrow> player \<Rightarrow> player" where
  "run buf [] s = s"
| "run buf (e # es) s = run buf es (step buf e s)"

text \<open>The device clock is monotone: it never moves backwards.\<close>

fun clockStep :: "event \<Rightarrow> bool" where
  "clockStep (Advance dt) = (0 \<le> dt)"
| "clockStep _ = True"

definition monotoneClock :: "event list \<Rightarrow> bool" where
  "monotoneClock es = list_all clockStep es"

text \<open>
  The component after its first render, on a context whose clock reads \<open>t0\<close>.
\<close>

definition init :: "real \<Rightarrow> bool \<Rightarrow> player" where
  "init t0 susp =
     \<lparr>isPlaying = False, progress = 0, volume = 8 / 10, audioSourceRef = None,
      startTimeRef = 0, pauseTimeRef = 0, animationFrameRef = 0, gainNodeRef = None,
      currentTime = t0, suspended = susp, sources = [], gains = [],
      nextFrame = 1, pendingFrames = [], mounted = True, faults = []\<rparr>"

subsection \<open>The volume slider\<close>

text \<open>
  \<open>handleVolumeChange\<close> is the \<open>onChange\<close> of one element only,
  \<open><input type="range" min="0" max="1" step="0.01">\<close>, and reads \<open>e.target.value\<close>.
  The value of a range input is sanitized by the platform before any handler sees it: a
  value below \<open>min\<close> becomes \<open>min\<close>, a value above \<open>max\<close> becomes \<open>max\<close>, and a
  value off the step grid becomes the nearest multiple of the step (a tie goes upwards).
  \<open>rangeInput x\<close> is the value the element holds when asked for the level \<open>x\<close>, and
  \<open>volumeInput x\<close> the change event that follows.
\<close>

definition rangeInput :: "real \<Rightarrow> real" where
  "rangeInput x = (let c = max 0 (min 1 x) in of_int \<lfloor>c * 100 + 1 / 2\<rfloor> / 100)"


subsection \<open>The arithmetic in binary64\<close>







definition updateProgressR :: "(real \<Rightarrow> real) \<Rightarrow> real option \<Rightarrow> bool \<Rightarrow> player \<Rightarrow> player" where
  "updateProgressR fl buf cap s =
     (case buf of
        None \<Rightarrow> s
      | Some duration \<Rightarrow>
          (let elapsedTime = fl (currentTime s - startTimeRef s);
               currentProgress = min (fl (fl (elapsedTime / duration) * 100)) 100;
               s1 = s\<lparr>progress := currentProgress\<rparr>
           in if currentProgress < 100 \<and> cap then
                (case requestAnimationFrame cap s1 of
                   (h, s2) \<Rightarrow> s2\<lparr>animationFrameRef := h\<rparr>)
              else if currentProgress \<ge> 100 then
                s1\<lparr>isPlaying := False, progress := 100\<rparr>
              else s1))"

definition playAudioR :: "(real \<Rightarrow> real) \<Rightarrow> real option \<Rightarrow> player \<Rightarrow> player" where
  "playAudioR fl buf s =
     (case buf of
        None \<Rightarrow> s
      | Some duration \<Rightarrow>
          (let s1 = (if suspended s then s\<lparr>suspended := False\<rparr> else s);
               source = createBufferSource;
               s2 = s1\<lparr>gains := gains s1 @ [volume s1],
                       gainNodeRef := Some (length (gains s1))\<rparr>;
               offset = fl (fl (progress s2 / 100) * duration);
               s3 = s2\<lparr>startTimeRef := fl (currentTime s2 - offset)\<rparr>
           in case node_start (currentTime s3) offset source of
                Inl e \<Rightarrow> s3\<lparr>sources := sources s3 @ [source], faults := faults s3 @ [e]\<rparr>
              | Inr source' \<Rightarrow>
                  (let s4 = s3\<lparr>sources := sources s3 @ [source'],
                              audioSourceRef := Some (length (sources s3)),
                              isPlaying := True\<rparr>
                   in case requestAnimationFrame (isPlaying s) s4 of
                        (h, s5) \<Rightarrow> s5\<lparr>animationFrameRef := h\<rparr>)))"

definition togglePlayR :: "(real \<Rightarrow> real) \<Rightarrow> real option \<Rightarrow> player \<Rightarrow> player" where
  "togglePlayR fl buf s = (if isPlaying s then pauseAudio s else playAudioR fl buf s)"

definition stepR :: "(real \<Rightarrow> real) \<Rightarrow> real option \<Rightarrow> event \<Rightarrow> player \<Rightarrow> player" where
  "stepR fl buf e s =
     (case e of
        TogglePlay \<Rightarrow>
          if mounted s then playingEffect (isPlaying s) (togglePlayR fl buf s) else s
      | Frame h \<Rightarrow>
          (case map_of (pendingFrames s) h of
             None \<Rightarrow> s
           | Some cap \<Rightarrow>
               (let s1 = updateProgressR fl buf cap (cancelAnimationFrame h s)
                in if mounted s then playingEffect (isPlaying s) s1
                   else s1\<lparr>isPlaying := isPlaying s, progress := progress s\<rparr>))
      | _ \<Rightarrow> step buf e s)"

fun runR :: "(real \<Rightarrow> real) \<Rightarrow> real option \<Rightarrow> event list \<Rightarrow> player \<Rightarrow> player" where
  "runR fl buf [] s = s"
| "runR fl buf (e # es) s = runR fl buf es (stepR fl buf e s)"

subsection \<open>Ticks and the events between them\<close>



subsection \<open>Invariants of the reachable states\<close>

text \<open>
  For a buffer of duration \<open>d\<close>. \<open>framesOk\<close>: at most one animation-frame callback is
  pending, it is the one \<open>animationFrameRef\<close> names, it has captured \<open>isPlaying = true\<close>,
  and it is pending only while the mounted component is playing. \<open>anchored\<close>: while
  playing, the elapsed time computed from \<open>startTimeRef\<close> is at least the position that
  \<open>progress\<close> shows. \<open>oneActive\<close>: a node that still produces output is the one
  \<open>audioSourceRef\<close> holds, and the mounted component is playing. \<open>handleOk\<close>: the node
  \<open>audioSourceRef\<close> holds was started with the anchor \<open>startTimeRef\<close>.
\<close>

definition framesOk :: "player \<Rightarrow> bool" where
  "framesOk s \<longleftrightarrow>
     0 < nextFrame s \<and> animationFrameRef s < nextFrame s \<and>
     (pendingFrames s = [] \<or>
        (pendingFrames s = [(animationFrameRef s, True)] \<and> animationFrameRef s \<noteq> 0
           \<and> isPlaying s \<and> mounted s))"

definition anchored :: "real \<Rightarrow> player \<Rightarrow> bool" where
  "anchored d s \<longleftrightarrow>
     (isPlaying s \<longrightarrow> progress s / 100 * d \<le> currentTime s - startTimeRef s)"

definition oneActive :: "real \<Rightarrow> player \<Rightarrow> bool" where
  "oneActive d s \<longleftrightarrow>
     (\<forall>i < length (sources s). active d (currentTime s) (sources s ! i) \<longrightarrow>
        audioSourceRef s = Some i \<and> isPlaying s \<and> mounted s)"

definition handleOk :: "player \<Rightarrow> bool" where
  "handleOk s \<longleftrightarrow>
     (\<forall>i. audioSourceRef s = Some i \<longrightarrow>
        i < length (sources s) \<and> started (sources s ! i) \<and>
        startedAt (sources s ! i) - startOffset (sources s ! i) = startTimeRef s)"

definition inv :: "real \<Rightarrow> player \<Rightarrow> bool" where
  "inv d s \<longleftrightarrow>
     faults s = [] \<and> 0 \<le> progress s \<and> progress s \<le> 100 \<and>
     framesOk s \<and> anchored d s \<and> oneActive d s \<and> handleOk s"

text \<open>
  Without a buffer the controller stays idle: not playing, progress 0, no node ever created,
  no callback pending, no uncaught exception.
\<close>

definition idle :: "player \<Rightarrow> bool" where
  "idle s \<longleftrightarrow>
     \<not> isPlaying s \<and> progress s = 0 \<and> sources s = [] \<and> audioSourceRef s = None \<and>
     pendingFrames s = [] \<and> faults s = []"


subsection \<open>Example runs\<close>

text \<open>
  A buffer of 10 seconds, the context clock at 0 at the first render. \<open>examplePlaying\<close>:
  play, five seconds pass, one tick (progress 50). \<open>examplePaused\<close>: then pause.
  \<open>exampleEnding\<close>: play, twelve seconds pass, the tick is still pending.
  \<open>exampleCompleted\<close>: the same after the tick.
\<close>

definition examplePlaying :: player where
  "examplePlaying = run (Some 10) [TogglePlay, Advance 5, Frame 2] (init 0 False)"

definition examplePaused :: player where
  "examplePaused = run (Some 10) [TogglePlay, Advance 5, Frame 2, TogglePlay] (init 0 False)"

definition exampleEnding :: player where
  "exampleEnding = run (Some 10) [TogglePlay, Advance 12] (init 0 False)"





section \<open>Properties\<close>

subsection \<open>What each handler does to the fields\<close>

lemma stopAudio_fields:
  "isPlaying (stopAudio s) = isPlaying s"
  "progress (stopAudio s) = progress s"
  "volume (stopAudio s) = volume s"
  "startTimeRef (stopAudio s) = startTimeRef s"
  "pauseTimeRef (stopAudio s) = pauseTimeRef s"
  "animationFrameRef (stopAudio s) = animationFrameRef s"
  "gainNodeRef (stopAudio s) = gainNodeRef s"
  "currentTime (stopAudio s) = currentTime s"
  "suspended (stopAudio s) = suspended s"
  "gains (stopAudio s) = gains s"
  "nextFrame (stopAudio s) = nextFrame s"
  "mounted (stopAudio s) = mounted s"
  "faults (stopAudio s) = faults s"
  "audioSourceRef (stopAudio s) = None"
  "length (sources (stopAudio s)) = length (sources s)"
  by (simp_all add: stopAudio_def cancelAnimationFrame_def Let_def split: option.split sum.split)

lemma stopAudio_pending:
  "pendingFrames (stopAudio s) =
     (if animationFrameRef s \<noteq> 0
      then filter (\<lambda>p. fst p \<noteq> animationFrameRef s) (pendingFrames s)
      else pendingFrames s)"
  by (simp add: stopAudio_def cancelAnimationFrame_def Let_def split: option.split sum.split)

lemma stopAudio_active:
  assumes "i < length (sources s)" "active d t (sources (stopAudio s) ! i)"
  shows "active d t (sources s ! i) \<and> audioSourceRef s \<noteq> Some i"
  using assms
  by (auto simp: stopAudio_def cancelAnimationFrame_def Let_def node_stop_def active_def
        nth_list_update split: option.splits sum.splits if_splits)

lemma step_pause:
  assumes "mounted s" "isPlaying s"
  shows "step buf TogglePlay s = pauseAudio s"
  using assms
  by (cases s) (simp add: step_def togglePlay_def pauseAudio_def stopAudio_def playingEffect_def
        cancelAnimationFrame_def Let_def split: option.split sum.split)

lemma step_restart:
  assumes "mounted s"
  shows "step buf Restart s = restart s"
  using assms
  by (cases s) (simp add: step_def restart_def pauseAudio_def stopAudio_def playingEffect_def
        cancelAnimationFrame_def Let_def split: option.split sum.split)

lemma step_unmount:
  assumes "mounted s"
  shows "step buf Unmount s = (stopAudio s)\<lparr>mounted := False\<rparr>"
  using assms
  by (cases s) (simp add: step_def unmount_def stopAudio_def
        cancelAnimationFrame_def Let_def split: option.split sum.split)

lemma step_frame_none:
  assumes "pendingFrames s = []"
  shows "step buf (Frame h) s = s"
  using assms by (simp add: step_def)

lemma step_frame_tick:
  assumes "mounted s" "isPlaying s" "pendingFrames s = [(h, True)]"
  shows "step (Some d) (Frame h) s =
     (if (currentTime s - startTimeRef s) / d * 100 < 100
      then s\<lparr>progress := (currentTime s - startTimeRef s) / d * 100,
             pendingFrames := [(nextFrame s, True)],
             nextFrame := Suc (nextFrame s),
             animationFrameRef := nextFrame s\<rparr>
      else s\<lparr>progress := 100, isPlaying := False, pendingFrames := []\<rparr>)"
  using assms
  by (cases s) (simp add: step_def updateProgress_def playingEffect_def
        requestAnimationFrame_def cancelAnimationFrame_def Let_def min_def)

lemma inv_init: "inv d (init t0 susp)"
  by (simp add: inv_def framesOk_def anchored_def oneActive_def handleOk_def init_def)

lemma framesOk_stop: "framesOk s \<Longrightarrow> pendingFrames (stopAudio s) = []"
  by (auto simp: framesOk_def stopAudio_pending)

lemma oneActive_stop:
  assumes "oneActive d s" "i < length (sources s)"
  shows "\<not> active d (currentTime s) (sources (stopAudio s) ! i)"
  using assms stopAudio_active[of i s d "currentTime s"] unfolding oneActive_def by blast

lemma inv_pauseAudio:
  assumes "inv d s"
  shows "inv d (pauseAudio s)"
proof -
  have f: "framesOk s" and o: "oneActive d s" using assms by (simp_all add: inv_def)
  have 1: "framesOk (pauseAudio s)"
    using f framesOk_stop[OF f] by (simp add: framesOk_def pauseAudio_def stopAudio_fields)
  have 2: "oneActive d (pauseAudio s)"
    using oneActive_stop[OF o] by (simp add: oneActive_def pauseAudio_def stopAudio_fields)
  have 3: "handleOk (pauseAudio s)"
    by (simp add: handleOk_def pauseAudio_def stopAudio_fields)
  have 4: "anchored d (pauseAudio s)"
    by (simp add: anchored_def pauseAudio_def)
  show ?thesis
    using assms 1 2 3 4 by (simp add: inv_def pauseAudio_def stopAudio_fields)
qed

lemma inv_restart:
  assumes "inv d s"
  shows "inv d (restart s)"
proof -
  have p: "inv d (pauseAudio s)" using assms by (rule inv_pauseAudio)
  have np: "\<not> isPlaying (pauseAudio s)" by (simp add: pauseAudio_def)
  have 1: "framesOk (restart s)"
    using p by (simp add: inv_def framesOk_def restart_def)
  have 2: "oneActive d (restart s)"
    using p by (simp add: inv_def oneActive_def restart_def)
  have 3: "handleOk (restart s)"
    by (simp add: handleOk_def restart_def pauseAudio_def stopAudio_fields)
  have 4: "anchored d (restart s)"
    by (simp add: anchored_def restart_def pauseAudio_def)
  show ?thesis
    using p 1 2 3 4 by (simp add: inv_def restart_def)
qed

lemma inv_unmount:
  assumes "inv d s"
  shows "inv d ((stopAudio s)\<lparr>mounted := False\<rparr>)"
proof -
  have f: "framesOk s" and o: "oneActive d s" and a: "anchored d s"
    using assms by (simp_all add: inv_def)
  have 1: "framesOk ((stopAudio s)\<lparr>mounted := False\<rparr>)"
    using f framesOk_stop[OF f] by (simp add: framesOk_def stopAudio_fields)
  have 2: "oneActive d ((stopAudio s)\<lparr>mounted := False\<rparr>)"
    using oneActive_stop[OF o] by (simp add: oneActive_def stopAudio_fields)
  have 3: "handleOk ((stopAudio s)\<lparr>mounted := False\<rparr>)"
    by (simp add: handleOk_def stopAudio_fields)
  have 4: "anchored d ((stopAudio s)\<lparr>mounted := False\<rparr>)"
    using a by (simp add: anchored_def stopAudio_fields)
  show ?thesis
    using assms 1 2 3 4 by (simp add: inv_def stopAudio_fields)
qed

lemma playAudio_ok:
  assumes "0 \<le> progress s / 100 * d"
  shows "playAudio (Some d) s =
     s\<lparr>suspended := False,
       gains := gains s @ [volume s],
       gainNodeRef := Some (length (gains s)),
       startTimeRef := currentTime s - progress s / 100 * d,
       sources := sources s @
         [\<lparr>started = True, startOffset = progress s / 100 * d,
           startedAt = currentTime s, stopped = False\<rparr>],
       audioSourceRef := Some (length (sources s)),
       isPlaying := True,
       pendingFrames := pendingFrames s @ [(nextFrame s, isPlaying s)],
       nextFrame := Suc (nextFrame s),
       animationFrameRef := nextFrame s\<rparr>"
  using assms
  by (cases s) (simp add: playAudio_def node_start_def createBufferSource_def
        requestAnimationFrame_def Let_def)

lemma step_play:
  assumes "mounted s" "\<not> isPlaying s" "0 \<le> progress s / 100 * d"
    "pendingFrames s = []" "0 < nextFrame s"
  shows "step (Some d) TogglePlay s =
     s\<lparr>suspended := False,
       gains := gains s @ [volume s],
       gainNodeRef := Some (length (gains s)),
       startTimeRef := currentTime s - progress s / 100 * d,
       sources := sources s @
         [\<lparr>started = True, startOffset = progress s / 100 * d,
           startedAt = currentTime s, stopped = False\<rparr>],
       audioSourceRef := Some (length (sources s)),
       isPlaying := True,
       pendingFrames := [(Suc (nextFrame s), True)],
       nextFrame := Suc (Suc (nextFrame s)),
       animationFrameRef := Suc (nextFrame s)\<rparr>"
  using assms
  by (cases s) (simp add: step_def togglePlay_def playAudio_ok playingEffect_def
        requestAnimationFrame_def cancelAnimationFrame_def Let_def)

lemma inv_play:
  assumes "inv d s" "0 < d" "mounted s" "\<not> isPlaying s"
  shows "inv d (step (Some d) TogglePlay s)"
proof -
  have f: "framesOk s" and o: "oneActive d s" and p: "0 \<le> progress s" "progress s \<le> 100"
    using assms(1) by (simp_all add: inv_def)
  have off: "0 \<le> progress s / 100 * d" using p(1) assms(2) by simp
  have pend: "pendingFrames s = []" and nf: "0 < nextFrame s"
    using f assms(4) by (auto simp: framesOk_def)
  note eq = step_play[OF assms(3,4) off pend nf]
  have 1: "framesOk (step (Some d) TogglePlay s)"
    using assms(3) by (simp add: eq framesOk_def)
  have 2: "anchored d (step (Some d) TogglePlay s)"
    by (simp add: eq anchored_def)
  have old: "\<And>i. i < length (sources s) \<Longrightarrow> \<not> active d (currentTime s) (sources s ! i)"
    using o assms(4) unfolding oneActive_def by blast
  have 3: "oneActive d (step (Some d) TogglePlay s)"
    using old assms(3) by (simp add: eq oneActive_def nth_append less_Suc_eq)
  have 4: "handleOk (step (Some d) TogglePlay s)"
    by (simp add: eq handleOk_def)
  show ?thesis
    using assms(1) 1 2 3 4 by (simp add: inv_def eq)
qed

lemma inv_tick:
  assumes "inv d s" "0 < d" "mounted s" "isPlaying s" "pendingFrames s = [(h, True)]"
  shows "inv d (step (Some d) (Frame h) s)"
proof -
  let ?e = "currentTime s - startTimeRef s"
  have f: "framesOk s" and o: "oneActive d s" and a: "anchored d s" and k: "handleOk s"
    and p: "0 \<le> progress s"
    using assms(1) by (simp_all add: inv_def)
  have le: "progress s / 100 * d \<le> ?e" using a assms(4) by (simp add: anchored_def)
  have e0: "0 \<le> ?e"
  proof -
    have "0 \<le> progress s / 100 * d" using p assms(2) by simp
    then show ?thesis using le by linarith
  qed
  note eq = step_frame_tick[OF assms(3,4,5), of d]
  show ?thesis
  proof (cases "?e / d * 100 < 100")
    case True
    then have eq': "step (Some d) (Frame h) s =
        s\<lparr>progress := ?e / d * 100, pendingFrames := [(nextFrame s, True)],
          nextFrame := Suc (nextFrame s), animationFrameRef := nextFrame s\<rparr>"
      using eq by simp
    have 1: "framesOk (step (Some d) (Frame h) s)"
      using f assms(3,4) by (simp add: eq' framesOk_def)
    have 2: "anchored d (step (Some d) (Frame h) s)"
      using assms(2) by (simp add: eq' anchored_def)
    have 3: "oneActive d (step (Some d) (Frame h) s)"
      using o by (simp add: eq' oneActive_def)
    have 4: "handleOk (step (Some d) (Frame h) s)"
      using k by (simp add: eq' handleOk_def)
    have 5: "0 \<le> ?e / d * 100" using e0 assms(2) by simp
    show ?thesis
      using assms(1) 1 2 3 4 5 True by (simp add: inv_def eq')
  next
    case False
    then have eq': "step (Some d) (Frame h) s =
        s\<lparr>progress := 100, isPlaying := False, pendingFrames := []\<rparr>"
      using eq by simp
    have ed: "d \<le> ?e"
    proof -
      have "100 \<le> ?e / d * 100" using False by simp
      then have "100 * d \<le> ?e * 100" using assms(2) by (simp add: pos_le_divide_eq)
      then show ?thesis by simp
    qed
    have 1: "framesOk (step (Some d) (Frame h) s)"
      using f by (simp add: eq' framesOk_def)
    have 2: "anchored d (step (Some d) (Frame h) s)"
      by (simp add: eq' anchored_def)
    have dead: "\<not> active d (currentTime s) (sources s ! i)" if "i < length (sources s)" for i
    proof
      assume act: "active d (currentTime s) (sources s ! i)"
      then have "audioSourceRef s = Some i" using o that unfolding oneActive_def by blast
      then have "startedAt (sources s ! i) - startOffset (sources s ! i) = startTimeRef s"
        using k unfolding handleOk_def by blast
      moreover have "currentTime s < startedAt (sources s ! i) + (d - startOffset (sources s ! i))"
        using act by (simp add: active_def)
      ultimately show False using ed by linarith
    qed
    have 3: "oneActive d (step (Some d) (Frame h) s)"
      using dead by (simp add: eq' oneActive_def)
    have 4: "handleOk (step (Some d) (Frame h) s)"
      using k by (simp add: eq' handleOk_def)
    show ?thesis
      using assms(1) 1 2 3 4 by (simp add: inv_def eq')
  qed
qed

lemma inv_volume:
  assumes "inv d s"
  shows "inv d (handleVolumeChange v s)"
proof -
  have flds: "faults (handleVolumeChange v s) = faults s"
    "progress (handleVolumeChange v s) = progress s"
    "isPlaying (handleVolumeChange v s) = isPlaying s"
    "mounted (handleVolumeChange v s) = mounted s"
    "nextFrame (handleVolumeChange v s) = nextFrame s"
    "animationFrameRef (handleVolumeChange v s) = animationFrameRef s"
    "pendingFrames (handleVolumeChange v s) = pendingFrames s"
    "currentTime (handleVolumeChange v s) = currentTime s"
    "startTimeRef (handleVolumeChange v s) = startTimeRef s"
    "sources (handleVolumeChange v s) = sources s"
    "audioSourceRef (handleVolumeChange v s) = audioSourceRef s"
    by (simp_all add: handleVolumeChange_def Let_def split: option.split)
  have f: "framesOk s" and o: "oneActive d s" and a: "anchored d s" and k: "handleOk s"
    using assms by (simp_all add: inv_def)
  have 1: "framesOk (handleVolumeChange v s)"
    using f by (simp add: framesOk_def flds)
  have 2: "anchored d (handleVolumeChange v s)"
    using a by (simp add: anchored_def flds)
  have 3: "oneActive d (handleVolumeChange v s)"
    using o by (simp add: oneActive_def flds)
  have 4: "handleOk (handleVolumeChange v s)"
    using k by (simp add: handleOk_def flds)
  show ?thesis
    using assms 1 2 3 4 by (simp add: inv_def flds)
qed

lemma inv_advance:
  assumes "inv d s" "0 \<le> dt"
  shows "inv d (s\<lparr>currentTime := currentTime s + dt\<rparr>)"
proof -
  have f: "framesOk s" and o: "oneActive d s" and a: "anchored d s" and k: "handleOk s"
    using assms(1) by (simp_all add: inv_def)
  have 1: "framesOk (s\<lparr>currentTime := currentTime s + dt\<rparr>)"
    using f by (simp add: framesOk_def)
  have 2: "anchored d (s\<lparr>currentTime := currentTime s + dt\<rparr>)"
    using a assms(2) by (cases "isPlaying s") (simp_all add: anchored_def)
  have mono: "active d (currentTime s + dt) n \<Longrightarrow> active d (currentTime s) n" for n
    using assms(2) by (simp add: active_def)
  have 3: "oneActive d (s\<lparr>currentTime := currentTime s + dt\<rparr>)"
    using o mono unfolding oneActive_def by simp
  have 4: "handleOk (s\<lparr>currentTime := currentTime s + dt\<rparr>)"
    using k by (simp add: handleOk_def)
  show ?thesis
    using assms(1) 1 2 3 4 by (simp add: inv_def)
qed

lemma inv_step:
  assumes "inv d s" "0 < d" "clockStep e"
  shows "inv d (step (Some d) e s)"
proof (cases e)
  case TogglePlay
  show ?thesis
  proof (cases "mounted s")
    case True
    show ?thesis
    proof (cases "isPlaying s")
      case True
      with \<open>mounted s\<close> show ?thesis
        using inv_pauseAudio[OF assms(1)] by (simp add: TogglePlay step_pause)
    next
      case False
      with \<open>mounted s\<close> show ?thesis
        using inv_play[OF assms(1,2)] by (simp add: TogglePlay)
    qed
  next
    case False
    then show ?thesis using assms(1) by (simp add: TogglePlay step_def)
  qed
next
  case Restart
  show ?thesis
  proof (cases "mounted s")
    case True
    then show ?thesis using inv_restart[OF assms(1)] by (simp add: Restart step_restart)
  next
    case False
    then show ?thesis using assms(1) by (simp add: Restart step_def)
  qed
next
  case (VolumeChange v)
  show ?thesis
    using assms(1) inv_volume[OF assms(1), of v] by (simp add: VolumeChange step_def)
next
  case (Frame h)
  have f: "framesOk s" using assms(1) by (simp add: inv_def)
  show ?thesis
  proof (cases "pendingFrames s = []")
    case True
    then show ?thesis using assms(1) by (simp add: Frame step_frame_none)
  next
    case False
    then have pf: "pendingFrames s = [(animationFrameRef s, True)]" "isPlaying s" "mounted s"
      using f by (auto simp: framesOk_def)
    show ?thesis
    proof (cases "h = animationFrameRef s")
      case True
      then show ?thesis
        using inv_tick[OF assms(1,2) pf(3,2), of h] pf(1) by (simp add: Frame)
    next
      case False
      then have "map_of (pendingFrames s) h = None" using pf(1) by simp
      then show ?thesis using assms(1) by (simp add: Frame step_def)
    qed
  qed
next
  case Unmount
  show ?thesis
  proof (cases "mounted s")
    case True
    then show ?thesis using inv_unmount[OF assms(1)] by (simp add: Unmount step_unmount)
  next
    case False
    then show ?thesis using assms(1) by (simp add: Unmount step_def)
  qed
next
  case (Advance dt)
  then have "0 \<le> dt" using assms(3) by simp
  then show ?thesis using inv_advance[OF assms(1)] by (simp add: Advance step_def)
qed

lemma inv_run:
  assumes "0 < d" "monotoneClock es" "inv d s"
  shows "inv d (run (Some d) es s)"
  using assms(2,3)
proof (induction es arbitrary: s)
  case Nil
  then show ?case by simp
next
  case (Cons e es)
  then have "clockStep e" "monotoneClock es" by (simp_all add: monotoneClock_def)
  then show ?case using Cons.IH[of "step (Some d) e s"] inv_step[OF Cons.prems(2) assms(1)] by simp
qed

lemma inv_reachable:
  assumes "0 < d" "monotoneClock es"
  shows "inv d (run (Some d) es (init t0 susp))"
  using inv_run[OF assms inv_init] .

lemma handleVolumeChange_fields:
  "isPlaying (handleVolumeChange v s) = isPlaying s"
  "progress (handleVolumeChange v s) = progress s"
  "volume (handleVolumeChange v s) = v"
  "audioSourceRef (handleVolumeChange v s) = audioSourceRef s"
  "startTimeRef (handleVolumeChange v s) = startTimeRef s"
  "animationFrameRef (handleVolumeChange v s) = animationFrameRef s"
  "gainNodeRef (handleVolumeChange v s) = gainNodeRef s"
  "currentTime (handleVolumeChange v s) = currentTime s"
  "sources (handleVolumeChange v s) = sources s"
  "nextFrame (handleVolumeChange v s) = nextFrame s"
  "pendingFrames (handleVolumeChange v s) = pendingFrames s"
  "faults (handleVolumeChange v s) = faults s"
  "length (gains (handleVolumeChange v s)) = length (gains s)"
  by (simp_all add: handleVolumeChange_def Let_def split: option.split)

lemma stopAudio_sources_absent:
  "audioSourceRef s = None \<Longrightarrow> sources (stopAudio s) = sources s"
  by (simp add: stopAudio_def cancelAnimationFrame_def Let_def)

lemma stopAudio_more: "player.more (stopAudio s) = player.more s"
  by (simp add: stopAudio_def cancelAnimationFrame_def Let_def split: option.split sum.split)

lemma stopAudio_twice: "stopAudio (stopAudio s) = stopAudio s"
  by (rule player.equality)
     (simp_all add: stopAudio_fields stopAudio_pending stopAudio_sources_absent stopAudio_more)

lemma pauseAudio_twice: "pauseAudio (pauseAudio s) = pauseAudio s"
proof -
  have "stopAudio ((stopAudio s)\<lparr>isPlaying := False\<rparr>) = (stopAudio (stopAudio s))\<lparr>isPlaying := False\<rparr>"
    by (rule player.equality)
       (simp_all add: stopAudio_fields stopAudio_pending stopAudio_sources_absent stopAudio_more)
  then show ?thesis by (simp add: pauseAudio_def stopAudio_twice)
qed

lemma pauseAudio_absent:
  assumes "audioSourceRef s = None" "\<not> isPlaying s" "pendingFrames s = []"
  shows "pauseAudio s = s"
  unfolding pauseAudio_def using assms
  by (intro player.equality)
     (simp_all add: stopAudio_fields stopAudio_pending stopAudio_sources_absent stopAudio_more)

lemma updateProgress_complete:
  assumes "0 < d" "d \<le> currentTime s - startTimeRef s"
  shows "updateProgress (Some d) cap s = s\<lparr>progress := 100, isPlaying := False\<rparr>"
proof -
  have "100 * d \<le> (currentTime s - startTimeRef s) * 100" using assms(2) by simp
  then have "100 \<le> (currentTime s - startTimeRef s) / d * 100"
    using assms(1) by (simp add: pos_le_divide_eq)
  then have "min ((currentTime s - startTimeRef s) / d * 100) 100 = 100" by simp
  then show ?thesis by (simp add: updateProgress_def Let_def)
qed

lemma step_frame_complete:
  assumes "0 < d" "d \<le> currentTime s - startTimeRef s" "mounted s"
    "map_of (pendingFrames s) h = Some cap"
  shows "step (Some d) (Frame h) s =
     playingEffect (isPlaying s)
       (s\<lparr>pendingFrames := filter (\<lambda>p. fst p \<noteq> h) (pendingFrames s),
          progress := 100, isPlaying := False\<rparr>)"
proof -
  have "updateProgress (Some d) cap (cancelAnimationFrame h s) =
      (cancelAnimationFrame h s)\<lparr>progress := 100, isPlaying := False\<rparr>"
    using assms(1,2) by (intro updateProgress_complete) (simp_all add: cancelAnimationFrame_def)
  then show ?thesis
    using assms(3,4) by (simp add: step_def cancelAnimationFrame_def Let_def)
qed

lemma playingEffect_stopped_fields:
  assumes "\<not> isPlaying s"
  shows "progress (playingEffect old s) = progress s"
    "isPlaying (playingEffect old s) = False"
    "nextFrame (playingEffect old s) = nextFrame s"
    "sources (playingEffect old s) = sources s"
    "audioSourceRef (playingEffect old s) = audioSourceRef s"
    "set (pendingFrames (playingEffect old s)) \<subseteq> set (pendingFrames s)"
  using assms by (auto simp: playingEffect_def cancelAnimationFrame_def Let_def)


lemma inv_paused:
  assumes "inv d s" "0 < d" "\<not> isPlaying s"
  shows "0 \<le> progress s / 100 * d" "pendingFrames s = []" "0 < nextFrame s"
proof -
  have f: "framesOk s" and p: "0 \<le> progress s" using assms(1) by (simp_all add: inv_def)
  show "0 \<le> progress s / 100 * d" using p assms(2) by simp
  show "pendingFrames s = []" "0 < nextFrame s" using f assms(3) by (auto simp: framesOk_def)
qed

lemma filter_at_most_one:
  assumes "\<And>i. i < length xs \<Longrightarrow> P (xs ! i) \<Longrightarrow> k = Some i"
  shows "length (filter P xs) \<le> 1"
  using assms
proof (induction xs arbitrary: k)
  case Nil
  then show ?case by simp
next
  case (Cons x xs)
  show ?case
  proof (cases "P x")
    case True
    then have k: "k = Some 0" using Cons.prems[of 0] by simp
    have "\<not> P (xs ! j)" if "j < length xs" for j
      using Cons.prems[of "Suc j"] that k by auto
    then have "filter P xs = []" by (auto simp: filter_empty_conv in_set_conv_nth)
    then show ?thesis using True by simp
  next
    case False
    have "length (filter P xs) \<le> 1"
    proof (rule Cons.IH[of "map_option (\<lambda>n. n - 1) k"])
      fix i assume "i < length xs" "P (xs ! i)"
      then have "k = Some (Suc i)" using Cons.prems[of "Suc i"] by simp
      then show "map_option (\<lambda>n. n - 1) k = Some i" by simp
    qed
    then show ?thesis using False by simp
  qed
qed

lemma oneActive_count:
  assumes "oneActive d s"
  shows "length (activeNodes d s) \<le> 1"
  unfolding activeNodes_def
  by (rule filter_at_most_one[of _ _ "audioSourceRef s"])
     (use assms in \<open>simp add: oneActive_def\<close>)

lemma oneActive_paused:
  assumes "oneActive d s" "\<not> (isPlaying s \<and> mounted s)"
  shows "activeNodes d s = []"
  using assms unfolding activeNodes_def oneActive_def
  by (auto simp: filter_empty_conv in_set_conv_nth)

lemma sources_grow:
  assumes "inv d s" "0 < d" "length (sources s) < length (sources (step (Some d) e s))"
  shows "mounted s \<and> \<not> isPlaying s \<and> e = TogglePlay"
proof (cases e)
  case TogglePlay
  show ?thesis
  proof (cases "mounted s \<and> \<not> isPlaying s")
    case True
    then show ?thesis using TogglePlay by simp
  next
    case False
    then have "length (sources (step (Some d) e s)) = length (sources s)"
      by (cases "mounted s")
         (simp_all add: TogglePlay step_pause pauseAudio_def stopAudio_fields, simp add: step_def)
    then show ?thesis using assms(3) by simp
  qed
next
  case Restart
  have "length (sources (step (Some d) e s)) = length (sources s)"
    by (cases "mounted s")
       (simp_all add: Restart step_restart restart_def pauseAudio_def stopAudio_fields,
        simp add: step_def)
  then show ?thesis using assms(3) by simp
next
  case (VolumeChange v)
  have "length (sources (step (Some d) e s)) = length (sources s)"
    by (simp add: VolumeChange step_def handleVolumeChange_def Let_def split: option.split)
  then show ?thesis using assms(3) by simp
next
  case (Frame h)
  have f: "framesOk s" using assms(1) by (simp add: inv_def)
  have "length (sources (step (Some d) e s)) = length (sources s)"
  proof (cases "map_of (pendingFrames s) h")
    case None
    then show ?thesis by (simp add: Frame step_def)
  next
    case (Some cap)
    then have ne: "pendingFrames s \<noteq> []" by auto
    then have pf: "pendingFrames s = [(animationFrameRef s, True)]" "isPlaying s" "mounted s"
      using f by (auto simp: framesOk_def)
    then have "h = animationFrameRef s" using Some by (simp split: if_splits)
    then show ?thesis
      using pf(1) by (simp add: Frame step_frame_tick[OF pf(3,2)])
  qed
  then show ?thesis using assms(3) by simp
next
  case Unmount
  have "length (sources (step (Some d) e s)) = length (sources s)"
    by (cases "mounted s")
       (simp_all add: Unmount step_unmount stopAudio_fields, simp add: step_def)
  then show ?thesis using assms(3) by simp
next
  case (Advance dt)
  have "length (sources (step (Some d) e s)) = length (sources s)"
    by (simp add: Advance step_def)
  then show ?thesis using assms(3) by simp
qed

lemma stopAudio_sources:
  "sources (stopAudio s) =
     (case audioSourceRef s of
        None \<Rightarrow> sources s
      | Some i \<Rightarrow>
          if i < length (sources s) \<and> started (sources s ! i) \<and> \<not> stopped (sources s ! i)
          then (sources s)[i := (sources s ! i)\<lparr>stopped := True\<rparr>]
          else sources s)"
  by (simp add: stopAudio_def cancelAnimationFrame_def node_stop_def Let_def split: option.split)

lemma stop_again:
  "sources (stopAudio ((stopAudio s)\<lparr>isPlaying := b, audioSourceRef := audioSourceRef s\<rparr>))
     = sources (stopAudio s)"
proof (cases "audioSourceRef s")
  case None
  then show ?thesis by (simp add: stopAudio_sources)
next
  case (Some i)
  then show ?thesis by (simp add: stopAudio_sources[of s] stopAudio_sources[of "_\<lparr>isPlaying := b, audioSourceRef := Some i\<rparr>"])
qed

subsection \<open>No buffer: the controller stays idle\<close>

lemma idle_init: "idle (init t0 susp)"
  by (simp add: idle_def init_def)

lemma idle_step:
  assumes "idle s"
  shows "idle (step None e s)"
proof (cases e)
  case TogglePlay
  have "togglePlay None s = s" using assms by (simp add: togglePlay_def playAudio_def idle_def)
  then have "step None TogglePlay s = s" by (simp add: step_def playingEffect_def)
  then show ?thesis using assms TogglePlay by simp
next
  case Restart
  have "stopAudio s = s" using assms
    by (cases s) (simp add: stopAudio_def idle_def cancelAnimationFrame_def Let_def)
  then have "restart s = s\<lparr>isPlaying := False, progress := 0, startTimeRef := currentTime s\<rparr>"
    by (simp add: restart_def pauseAudio_def)
  then have "idle (restart s)" using assms by (simp add: idle_def)
  moreover have "step None Restart s = (if mounted s then restart s else s)"
    by (cases "mounted s") (simp_all add: step_restart, simp add: step_def)
  ultimately show ?thesis using assms Restart by simp
next
  case (VolumeChange v)
  then show ?thesis using assms
    by (simp add: step_def handleVolumeChange_def idle_def Let_def split: option.split)
next
  case (Frame h)
  then show ?thesis using assms by (simp add: step_frame_none idle_def)
next
  case Unmount
  have "stopAudio s = s" using assms
    by (cases s) (simp add: stopAudio_def idle_def cancelAnimationFrame_def Let_def)
  then have "unmount s = s\<lparr>mounted := False\<rparr>" using assms
    by (cases s) (simp add: unmount_def idle_def cancelAnimationFrame_def Let_def)
  then show ?thesis using assms Unmount by (simp add: step_def idle_def)
next
  case (Advance dt)
  then show ?thesis using assms by (simp add: step_def idle_def)
qed

lemma idle_run: "idle s \<Longrightarrow> idle (run None es s)"
  by (induction es arbitrary: s) (simp_all add: idle_step)

subsection \<open>The example runs, evaluated\<close>

lemmas model_defs =
  step_def togglePlay_def playAudio_def pauseAudio_def stopAudio_def updateProgress_def
  playingEffect_def requestAnimationFrame_def cancelAnimationFrame_def node_start_def
  node_stop_def createBufferSource_def restart_def unmount_def handleVolumeChange_def
  init_def Let_def

lemma examplePlaying_eval:
  "examplePlaying =
     \<lparr>isPlaying = True, progress = 50, volume = 8 / 10, audioSourceRef = Some 0,
      startTimeRef = 0, pauseTimeRef = 0, animationFrameRef = 3, gainNodeRef = Some 0,
      currentTime = 5, suspended = False,
      sources = [\<lparr>started = True, startOffset = 0, startedAt = 0, stopped = False\<rparr>],
      gains = [8 / 10], nextFrame = 4, pendingFrames = [(3, True)], mounted = True,
      faults = []\<rparr>"
  by (simp add: examplePlaying_def model_defs)

lemma examplePaused_eval:
  "examplePaused =
     \<lparr>isPlaying = False, progress = 50, volume = 8 / 10, audioSourceRef = None,
      startTimeRef = 0, pauseTimeRef = 0, animationFrameRef = 3, gainNodeRef = Some 0,
      currentTime = 5, suspended = False,
      sources = [\<lparr>started = True, startOffset = 0, startedAt = 0, stopped = True\<rparr>],
      gains = [8 / 10], nextFrame = 4, pendingFrames = [], mounted = True,
      faults = []\<rparr>"
  by (simp add: examplePaused_def model_defs)

lemma exampleEnding_eval:
  "exampleEnding =
     \<lparr>isPlaying = True, progress = 0, volume = 8 / 10, audioSourceRef = Some 0,
      startTimeRef = 0, pauseTimeRef = 0, animationFrameRef = 2, gainNodeRef = Some 0,
      currentTime = 12, suspended = False,
      sources = [\<lparr>started = True, startOffset = 0, startedAt = 0, stopped = False\<rparr>],
      gains = [8 / 10], nextFrame = 3, pendingFrames = [(2, True)], mounted = True,
      faults = []\<rparr>"
  by (simp add: exampleEnding_def model_defs)


subsection \<open>Ticks within one playback segment\<close>




subsection \<open>The slider\<close>




lemma rangeInput_grid: "rangeInput (of_int k / 100) = of_int k / 100" if "0 \<le> k" "k \<le> 100"
proof -
  have "max 0 (min 1 (real_of_int k / 100)) = real_of_int k / 100"
    using that by (simp add: max_def min_def)
  moreover have "\<lfloor>real_of_int k + 1 / 2\<rfloor> = k" by linarith
  ultimately show ?thesis by (simp add: rangeInput_def Let_def)
qed

subsection \<open>The runs in binary64, evaluated\<close>




lemma updateProgressR_exact: "updateProgressR (\<lambda>x. x) buf cap s = updateProgress buf cap s"
  by (simp add: updateProgressR_def updateProgress_def)

lemma playAudioR_exact: "playAudioR (\<lambda>x. x) buf s = playAudio buf s"
  by (simp add: playAudioR_def playAudio_def)

lemma stepR_exact: "stepR (\<lambda>x. x) buf e s = step buf e s"
  by (cases e)
     (simp_all add: stepR_def step_def togglePlayR_def togglePlay_def playAudioR_exact
        updateProgressR_exact split: option.split)

lemma runR_exact: "runR (\<lambda>x. x) buf es s = run buf es s"
  by (induction es arbitrary: s) (simp_all add: stepR_exact)








text \<open>What \<open>playAudio\<close> computes when every operation rounds.\<close>

lemma playAudioR_anchor:
  assumes "0 \<le> fl (fl (progress s / 100) * d)"
  shows "startTimeRef (playAudioR fl (Some d) s)
       = fl (currentTime s - fl (fl (progress s / 100) * d))"
    and "sources (playAudioR fl (Some d) s) = sources s @
       [\<lparr>started = True, startOffset = fl (fl (progress s / 100) * d),
         startedAt = currentTime s, stopped = False\<rparr>]"
    and "progress (playAudioR fl (Some d) s) = progress s"
  using assms
  by (simp_all add: playAudioR_def node_start_def createBufferSource_def
        requestAnimationFrame_def Let_def)

lemma updateProgressR_progress:
  "progress (updateProgressR fl (Some d) cap s) =
     min (fl (fl (fl (currentTime s - startTimeRef s) / d) * 100)) 100"
  by (simp add: updateProgressR_def requestAnimationFrame_def Let_def min_def)

text \<open>
  Under any monotone rounding, of two ticks with the same anchor the one at the later
  clock reading does not set the smaller \<open>progress\<close>.
\<close>

lemma updateProgressR_mono:
  assumes "mono fl" "0 < d" "currentTime s \<le> currentTime s'" "startTimeRef s' = startTimeRef s"
  shows "progress (updateProgressR fl (Some d) cap s)
     \<le> progress (updateProgressR fl (Some d) cap' s')"
proof -
  have "fl (currentTime s - startTimeRef s) \<le> fl (currentTime s' - startTimeRef s')"
    using assms(1,3,4) by (simp add: monoD)
  then have "fl (currentTime s - startTimeRef s) / d \<le> fl (currentTime s' - startTimeRef s') / d"
    using assms(2) by (simp add: divide_right_mono)
  then have "fl (fl (currentTime s - startTimeRef s) / d)
      \<le> fl (fl (currentTime s' - startTimeRef s') / d)"
    using assms(1) by (simp add: monoD)
  then have "fl (fl (currentTime s - startTimeRef s) / d) * 100
      \<le> fl (fl (currentTime s' - startTimeRef s') / d) * 100"
    by simp
  then have "fl (fl (fl (currentTime s - startTimeRef s) / d) * 100)
      \<le> fl (fl (fl (currentTime s' - startTimeRef s') / d) * 100)"
    by (rule monoD[OF assms(1)])
  then show ?thesis by (simp add: updateProgressR_progress min_le_iff_disj)
qed

section \<open>The claims\<close>

text \<open>
  C1. From any reachable playing state with progress \<open>p = progress s\<close>: pause, let the
  clock run on by any \<open>dt \<ge> 0\<close>, play. The pause and the wait leave \<open>progress\<close> at
  \<open>p\<close>; the play starts one new node at offset \<open>p / 100 * d\<close>, sets the anchor
  \<open>startTimeRef\<close> to the clock minus that offset, keeps \<open>progress\<close> at \<open>p\<close> and
  raises nothing: playback resumes from the frozen progress, not from 0.
\<close>

theorem resume_from_paused_progress:
  assumes "0 < d" "monotoneClock es" "0 \<le> dt"
    and "s = run (Some d) es (init t0 susp)"
    and "isPlaying s" "mounted s"
    and "paused = step (Some d) TogglePlay s"
    and "later = step (Some d) (Advance dt) paused"
    and "resumed = step (Some d) TogglePlay later"
  shows "\<not> isPlaying paused \<and> progress paused = progress s \<and> progress later = progress s \<and>
     isPlaying resumed \<and> progress resumed = progress s \<and>
     sources resumed = sources later @
       [\<lparr>started = True, startOffset = progress s / 100 * d,
         startedAt = currentTime later, stopped = False\<rparr>] \<and>
     audioSourceRef resumed = Some (length (sources later)) \<and>
     startTimeRef resumed = currentTime later - progress s / 100 * d \<and>
     faults resumed = []"
proof -
  have i0: "inv d s" using assms(4) inv_reachable[OF assms(1,2)] by simp
  have pa: "paused = pauseAudio s" using assms(5,6,7) by (simp add: step_pause)
  have i1: "inv d paused" using i0 pa inv_pauseAudio by simp
  have 1: "\<not> isPlaying paused" "progress paused = progress s" "mounted paused"
    using assms(6) by (simp_all add: pa pauseAudio_def stopAudio_fields)
  have la: "later = paused\<lparr>currentTime := currentTime paused + dt\<rparr>"
    using assms(8) by (simp add: step_def)
  have i2: "inv d later" using inv_advance[OF i1 assms(3)] la by simp
  have 2: "\<not> isPlaying later" "progress later = progress s" "mounted later"
    using 1 by (simp_all add: la)
  note eq = step_play[OF 2(3) 2(1) inv_paused[OF i2 assms(1) 2(1)]]
  have f: "faults later = []" and p: "0 \<le> progress s" "progress s \<le> 100"
    using i2 i0 by (simp_all add: inv_def)
  have r: "isPlaying resumed" "progress resumed = progress s"
    "sources resumed = sources later @
       [\<lparr>started = True, startOffset = progress s / 100 * d,
         startedAt = currentTime later, stopped = False\<rparr>]"
    "audioSourceRef resumed = Some (length (sources later))"
    "startTimeRef resumed = currentTime later - progress s / 100 * d"
    "faults resumed = []" "currentTime resumed = currentTime later"
    using 2(2) f by (simp_all add: assms(9) eq)
  show ?thesis using 1 2 r by simp
qed

theorem resume_from_paused_progress_witness:
  "0 < (10::real) \<and> monotoneClock [TogglePlay, Advance 5, Frame 2] \<and> 0 \<le> (3::real) \<and>
   isPlaying examplePlaying \<and> mounted examplePlaying \<and> progress examplePlaying = 50 \<and>
   progress (step (Some 10) TogglePlay
      (step (Some 10) (Advance 3) (step (Some 10) TogglePlay examplePlaying))) = 50 \<and>
   startTimeRef (step (Some 10) TogglePlay
      (step (Some 10) (Advance 3) (step (Some 10) TogglePlay examplePlaying))) =
     currentTime (step (Some 10) (Advance 3) (step (Some 10) TogglePlay examplePlaying))
       - 50 / 100 * 10"
proof -
  have h1: "0 < (10::real)" and h3: "0 \<le> (3::real)" by simp_all
  have h2: "monotoneClock [TogglePlay, Advance 5, Frame 2]" by (simp add: monotoneClock_def)
  have h5: "isPlaying examplePlaying" and h6: "mounted examplePlaying"
    and p: "progress examplePlaying = 50"
    by (simp_all add: examplePlaying_eval)
  note t = resume_from_paused_progress[OF h1 h2 h3 examplePlaying_def h5 h6 refl refl refl]
  show ?thesis using h1 h2 h3 h5 h6 p t by simp
qed




text \<open>
  C3. In every state reached from the first render under a monotone clock, by any of the
  events: at most one node is active; a step that creates a node starts from a state with
  no active node; a state that is not playing has no active node; \<open>pauseAudio\<close> and the
  unmount cleanup release the handle \<open>audioSourceRef\<close> and leave no node active.
\<close>

theorem at_most_one_active_node:
  assumes "0 < d" "monotoneClock es" "s = run (Some d) es (init t0 susp)"
  shows "length (activeNodes d s) \<le> 1 \<and>
     (\<forall>e. length (sources s) < length (sources (step (Some d) e s)) \<longrightarrow> activeNodes d s = []) \<and>
     (\<not> isPlaying s \<longrightarrow> activeNodes d s = []) \<and>
     audioSourceRef (pauseAudio s) = None \<and> activeNodes d (pauseAudio s) = [] \<and>
     audioSourceRef (unmount s) = None \<and> activeNodes d (unmount s) = []"
proof -
  have i: "inv d s" using assms(3) inv_reachable[OF assms(1,2)] by simp
  then have o: "oneActive d s" by (simp add: inv_def)
  have 1: "length (activeNodes d s) \<le> 1" using o by (rule oneActive_count)
  have 2: "activeNodes d s = []"
    if "length (sources s) < length (sources (step (Some d) e s))" for e
    using sources_grow[OF i assms(1) that] oneActive_paused[OF o] by blast
  have 3: "activeNodes d s = []" if "\<not> isPlaying s"
    using that oneActive_paused[OF o] by blast
  have ip: "inv d (pauseAudio s)" using i by (rule inv_pauseAudio)
  have 4: "activeNodes d (pauseAudio s) = []"
    by (rule oneActive_paused) (use ip in \<open>simp_all add: inv_def pauseAudio_def\<close>)
  have u: "unmount s = (stopAudio s)\<lparr>mounted := False\<rparr>"
    by (rule player.equality)
       (simp_all add: unmount_def Let_def cancelAnimationFrame_def stopAudio_fields stopAudio_pending)
  have iu: "inv d (unmount s)" using inv_unmount[OF i] u by simp
  have 5: "activeNodes d (unmount s) = []"
    by (rule oneActive_paused) (use iu in \<open>simp_all add: inv_def u\<close>)
  show ?thesis using 1 2 3 4 5 by (simp add: pauseAudio_def u stopAudio_fields)
qed

theorem at_most_one_active_node_witness:
  "0 < (10::real) \<and> monotoneClock [TogglePlay, Advance 5, Frame 2, TogglePlay] \<and>
   \<not> isPlaying examplePaused \<and>
   length (sources examplePaused) < length (sources (step (Some 10) TogglePlay examplePaused)) \<and>
   length (activeNodes 10 examplePaused) \<le> 1 \<and>
   activeNodes 10 examplePaused = [] \<and>
   audioSourceRef (pauseAudio examplePaused) = None \<and>
   audioSourceRef (unmount examplePaused) = None \<and>
   monotoneClock [TogglePlay, Advance 5, Frame 2] \<and>
   length (activeNodes 10 examplePlaying) \<le> 1 \<and>
   activeNodes 10 (pauseAudio examplePlaying) = []"
proof -
  have d: "0 < (10::real)" by simp
  have m1: "monotoneClock [TogglePlay, Advance 5, Frame 2, TogglePlay]"
    and m2: "monotoneClock [TogglePlay, Advance 5, Frame 2]"
    by (simp_all add: monotoneClock_def)
  have p: "\<not> isPlaying examplePaused" by (simp add: examplePaused_eval)
  have g: "length (sources examplePaused)
      < length (sources (step (Some 10) TogglePlay examplePaused))"
    by (simp add: examplePaused_eval model_defs)
  show ?thesis
    using d m1 m2 p g
      at_most_one_active_node[OF d m1 examplePaused_def]
      at_most_one_active_node[OF d m2 examplePlaying_def]
    by blast
qed

text \<open>
  C4. A tick whose elapsed time has reached the duration sets \<open>progress\<close> to exactly 100
  and \<open>isPlaying\<close> to false, requests no animation frame, and leaves the nodes and
  \<open>audioSourceRef\<close> as they are (no stop); after the re-render that follows no new
  callback is pending either.
\<close>

theorem natural_completion_tick:
  assumes "0 < d" "d \<le> currentTime s - startTimeRef s"
  shows "progress (updateProgress (Some d) cap s) = 100 \<and>
     \<not> isPlaying (updateProgress (Some d) cap s) \<and>
     nextFrame (updateProgress (Some d) cap s) = nextFrame s \<and>
     pendingFrames (updateProgress (Some d) cap s) = pendingFrames s \<and>
     sources (updateProgress (Some d) cap s) = sources s \<and>
     audioSourceRef (updateProgress (Some d) cap s) = audioSourceRef s \<and>
     (mounted s \<and> map_of (pendingFrames s) h = Some cap \<longrightarrow>
        progress (step (Some d) (Frame h) s) = 100 \<and>
        \<not> isPlaying (step (Some d) (Frame h) s) \<and>
        nextFrame (step (Some d) (Frame h) s) = nextFrame s \<and>
        h \<notin> fst ` set (pendingFrames (step (Some d) (Frame h) s)) \<and>
        set (pendingFrames (step (Some d) (Frame h) s)) \<subseteq> set (pendingFrames s) \<and>
        sources (step (Some d) (Frame h) s) = sources s \<and>
        audioSourceRef (step (Some d) (Frame h) s) = audioSourceRef s)"
proof -
  have a: "updateProgress (Some d) cap s = s\<lparr>progress := 100, isPlaying := False\<rparr>"
    using assms by (rule updateProgress_complete)
  have b: "progress (step (Some d) (Frame h) s) = 100 \<and>
        \<not> isPlaying (step (Some d) (Frame h) s) \<and>
        nextFrame (step (Some d) (Frame h) s) = nextFrame s \<and>
        h \<notin> fst ` set (pendingFrames (step (Some d) (Frame h) s)) \<and>
        set (pendingFrames (step (Some d) (Frame h) s)) \<subseteq> set (pendingFrames s) \<and>
        sources (step (Some d) (Frame h) s) = sources s \<and>
        audioSourceRef (step (Some d) (Frame h) s) = audioSourceRef s"
    if m: "mounted s" and p: "map_of (pendingFrames s) h = Some cap"
  proof -
    let ?t = "s\<lparr>pendingFrames := filter (\<lambda>p. fst p \<noteq> h) (pendingFrames s),
          progress := 100, isPlaying := False\<rparr>"
    have eq: "step (Some d) (Frame h) s = playingEffect (isPlaying s) ?t"
      using assms m p by (rule step_frame_complete)
    have np: "\<not> isPlaying ?t" by simp
    note fl = playingEffect_stopped_fields[OF np, of "isPlaying s"]
    have sub: "set (pendingFrames (playingEffect (isPlaying s) ?t))
        \<subseteq> set (filter (\<lambda>p. fst p \<noteq> h) (pendingFrames s))"
      using fl(6) by simp
    then have "h \<notin> fst ` set (pendingFrames (playingEffect (isPlaying s) ?t))" by auto
    moreover have "set (pendingFrames (playingEffect (isPlaying s) ?t)) \<subseteq> set (pendingFrames s)"
      using sub by auto
    ultimately show ?thesis using fl(1-5) by (simp add: eq)
  qed
  show ?thesis using a b by simp
qed

theorem natural_completion_tick_witness:
  "0 < (10::real) \<and> 10 \<le> currentTime exampleEnding - startTimeRef exampleEnding \<and>
   mounted exampleEnding \<and> map_of (pendingFrames exampleEnding) 2 = Some True \<and>
   progress (step (Some 10) (Frame 2) exampleEnding) = 100 \<and>
   \<not> isPlaying (step (Some 10) (Frame 2) exampleEnding) \<and>
   nextFrame (step (Some 10) (Frame 2) exampleEnding) = nextFrame exampleEnding \<and>
   sources (step (Some 10) (Frame 2) exampleEnding) = sources exampleEnding \<and>
   audioSourceRef (step (Some 10) (Frame 2) exampleEnding) = audioSourceRef exampleEnding"
proof -
  have d: "0 < (10::real)" by simp
  have e: "10 \<le> currentTime exampleEnding - startTimeRef exampleEnding"
    and m: "mounted exampleEnding"
    and p: "map_of (pendingFrames exampleEnding) 2 = Some True"
    by (simp_all add: exampleEnding_eval)
  show ?thesis
    using d e m p natural_completion_tick[OF d e, of True 2] by blast
qed

text \<open>
  C5. From every state the restart button sets \<open>progress\<close> to exactly 0 and
  \<open>isPlaying\<close> to false; it creates no node, requests no animation frame and leaves no
  handle, so it does not start playback. On a mounted component the re-render adds nothing.
\<close>

theorem restart_resets_progress:
  "progress (restart s) = 0 \<and> \<not> isPlaying (restart s) \<and>
   audioSourceRef (restart s) = None \<and>
   length (sources (restart s)) = length (sources s) \<and>
   nextFrame (restart s) = nextFrame s \<and>
   faults (restart s) = faults s \<and>
   (mounted s \<longrightarrow> step buf Restart s = restart s)"
  by (simp add: restart_def pauseAudio_def stopAudio_fields step_restart)

theorem restart_resets_progress_witness:
  "mounted examplePlaying \<and> isPlaying examplePlaying \<and> progress examplePlaying = 50 \<and>
   progress (step (Some 10) Restart examplePlaying) = 0 \<and>
   \<not> isPlaying (step (Some 10) Restart examplePlaying) \<and>
   length (sources (step (Some 10) Restart examplePlaying)) = length (sources examplePlaying)"
proof -
  have m: "mounted examplePlaying" and p: "isPlaying examplePlaying"
    and q: "progress examplePlaying = 50"
    by (simp_all add: examplePlaying_eval)
  show ?thesis
    using m p q restart_resets_progress[of examplePlaying "Some 10"] by simp
qed



text \<open>
  C7. For a level \<open>x\<close> in [0, 1] and every state, \<open>handleVolumeChange\<close> changes only
  the stored volume and the value of the gain node that \<open>gainNodeRef\<close> holds:
  \<open>isPlaying\<close>, \<open>progress\<close>, the source nodes, the handle, the anchor and the pending
  callbacks are as before, and nothing is raised.
\<close>

theorem volume_change_frame:
  assumes "0 \<le> x" "x \<le> 1"
  shows "isPlaying (handleVolumeChange x s) = isPlaying s \<and>
     progress (handleVolumeChange x s) = progress s \<and>
     sources (handleVolumeChange x s) = sources s \<and>
     audioSourceRef (handleVolumeChange x s) = audioSourceRef s \<and>
     startTimeRef (handleVolumeChange x s) = startTimeRef s \<and>
     pendingFrames (handleVolumeChange x s) = pendingFrames s \<and>
     nextFrame (handleVolumeChange x s) = nextFrame s \<and>
     faults (handleVolumeChange x s) = faults s \<and>
     handleVolumeChange x s =
       s\<lparr>volume := x,
         gains := (case gainNodeRef s of None \<Rightarrow> gains s | Some g \<Rightarrow> (gains s)[g := x])\<rparr> \<and>
     (mounted s \<longrightarrow> step buf (VolumeChange x) s = handleVolumeChange x s)"
proof -
  have "handleVolumeChange x s =
       s\<lparr>volume := x,
         gains := (case gainNodeRef s of None \<Rightarrow> gains s | Some g \<Rightarrow> (gains s)[g := x])\<rparr>"
    by (cases s) (simp add: handleVolumeChange_def Let_def split: option.split)
  moreover have "mounted s \<longrightarrow> step buf (VolumeChange x) s = handleVolumeChange x s"
    by (simp add: step_def)
  ultimately show ?thesis by (simp add: handleVolumeChange_fields)
qed

theorem volume_change_frame_witness:
  "(0::real) \<le> 1 / 2 \<and> (1 / 2 :: real) \<le> 1 \<and> mounted examplePlaying \<and>
   isPlaying (step (Some 10) (VolumeChange (1 / 2)) examplePlaying) = isPlaying examplePlaying \<and>
   progress (step (Some 10) (VolumeChange (1 / 2)) examplePlaying) = progress examplePlaying \<and>
   sources (step (Some 10) (VolumeChange (1 / 2)) examplePlaying) = sources examplePlaying \<and>
   audioSourceRef (step (Some 10) (VolumeChange (1 / 2)) examplePlaying)
     = audioSourceRef examplePlaying"
proof -
  have a: "(0::real) \<le> 1 / 2" and b: "(1 / 2 :: real) \<le> 1" by simp_all
  have m: "mounted examplePlaying" by (simp add: examplePlaying_eval)
  show ?thesis
    using a b m volume_change_frame[OF a b, of examplePlaying "Some 10"] by simp
qed

text \<open>
  C8. Without a decoded buffer \<open>playAudio\<close> returns at its first line: it is the identity
  on the whole state (so \<open>isPlaying\<close>, \<open>progress\<close>, the nodes and the uncaught
  exceptions are as before), a click on play in a state that is not playing changes nothing
  either, and every state reached from the first render by any events is idle.
\<close>

theorem play_without_buffer_noop:
  "playAudio None s = s \<and>
   (\<not> isPlaying s \<longrightarrow> step None TogglePlay s = s) \<and>
   idle (run None es (init t0 susp))"
proof -
  have 1: "playAudio None s = s" by (simp add: playAudio_def)
  have 2: "step None TogglePlay s = s" if "\<not> isPlaying s"
    using that by (simp add: step_def togglePlay_def 1 playingEffect_def)
  have 3: "idle (run None es (init t0 susp))" using idle_run[OF idle_init] .
  show ?thesis using 1 2 3 by blast
qed

theorem play_without_buffer_noop_witness:
  "playAudio None (init 0 False) = init 0 False \<and>
   \<not> isPlaying (init 0 False) \<and>
   step None TogglePlay (init 0 False) = init 0 False \<and>
   idle (run None [TogglePlay, Advance 1, Restart, TogglePlay] (init 0 False))"
proof -
  have h: "\<not> isPlaying (init 0 False)" by (simp add: init_def)
  show ?thesis
    using h play_without_buffer_noop
      [of "init 0 False" "[TogglePlay, Advance 1, Restart, TogglePlay]" 0 False]
    by blast
qed

text \<open>
  C9. \<open>pauseAudio\<close> is idempotent on the whole state; it never raises, leaves
  \<open>isPlaying\<close> false and never changes \<open>progress\<close> or \<open>volume\<close>; with no
  handle, not playing and nothing pending (the idle state among them) it changes nothing
  at all; and a second \<open>stop()\<close> on the same node, had the handle been kept, would
  leave the nodes as the first left them.
\<close>

theorem pause_idempotent:
  "pauseAudio (pauseAudio s) = pauseAudio s \<and>
   faults (pauseAudio s) = faults s \<and>
   \<not> isPlaying (pauseAudio s) \<and>
   progress (pauseAudio s) = progress s \<and>
   volume (pauseAudio s) = volume s \<and>
   (audioSourceRef s = None \<and> \<not> isPlaying s \<and> pendingFrames s = [] \<longrightarrow> pauseAudio s = s) \<and>
   sources (pauseAudio ((pauseAudio s)\<lparr>audioSourceRef := audioSourceRef s\<rparr>))
     = sources (pauseAudio s) \<and>
   faults (pauseAudio ((pauseAudio s)\<lparr>audioSourceRef := audioSourceRef s\<rparr>)) = faults s"
  using pauseAudio_twice[of s] pauseAudio_absent[of s] stop_again[of s False]
  by (simp add: pauseAudio_def stopAudio_fields)

theorem pause_idempotent_witness:
  "audioSourceRef examplePaused = None \<and> \<not> isPlaying examplePaused \<and>
   pendingFrames examplePaused = [] \<and>
   pauseAudio examplePaused = examplePaused \<and>
   pauseAudio (pauseAudio examplePlaying) = pauseAudio examplePlaying \<and>
   faults (pauseAudio examplePlaying) = faults examplePlaying"
proof -
  have a: "audioSourceRef examplePaused = None" and b: "\<not> isPlaying examplePaused"
    and c: "pendingFrames examplePaused = []"
    by (simp_all add: examplePaused_eval)
  show ?thesis
    using a b c pause_idempotent[of examplePaused] pause_idempotent[of examplePlaying]
    by blast
qed




end
